theory Spec2Isabelle
  imports Main
begin

section \<open>Command line options parser (cmdline\_parser.h)\<close>

text \<open>
  A shallow embedding of \<^verbatim>\<open>src/include/cmdline_parser.h\<close>. The header is modelled as it is
  written, with its \<^verbatim>\<open>assert\<close>s active: a failed assertion, a call of \<^verbatim>\<open>std::exit\<close> and an
  access the C++ standard leaves undefined are all values of the type \<open>failure\<close>, and a
  function that can end in one of them returns \<open>failure + 'a\<close>.
  What is written to the two streams before \<^verbatim>\<open>std::exit\<close> is carried by \<open>Exit\<close>
  (exit code, standard output, standard error); a normal return writes nothing.
\<close>

subsection \<open>Data model\<close>

record ProgramOption =
  name :: string
  flags :: "string list"
  description :: string
  defaultValue :: string

datatype failure =
    Exit int string string
  | AssertionFailed
  | UndefinedBehaviour

type_synonym flag_table = "string \<rightharpoonup> ProgramOption"
type_synonym result_map = "string \<rightharpoonup> string"

text \<open>The default constructor \<^verbatim>\<open>ProgramOption() {}\<close>: every field empty.\<close>

definition emptyOption :: ProgramOption where
  "emptyOption = \<lparr>name = [], flags = [], description = [], defaultValue = []\<rparr>"

definition nl :: string where
  "nl = [CHR 0x0A]"

definition quote :: string where
  "quote = [CHR 0x27]"

text \<open>The test \<^verbatim>\<open>s.front() == '-'\<close> (and \<^verbatim>\<open>argv[i][0] == '-'\<close>) on a non-empty string.\<close>

definition startsWithDash :: "string \<Rightarrow> bool" where
  "startsWithDash s = (case s of [] \<Rightarrow> False | c # _ \<Rightarrow> c = CHR ''-'')"

subsection \<open>Schema construction\<close>

text \<open>
  \<^verbatim>\<open>ProgramOption(std::string optName, std::string optDescr, std::string optDefVal = "")\<close>.
  \<^verbatim>\<open>optDescr.back()\<close> on an empty string is undefined.
\<close>

definition ProgramOption_named :: "string \<Rightarrow> string \<Rightarrow> string \<Rightarrow> failure + ProgramOption" where
  "ProgramOption_named optName optDescr optDefVal =
     (if optDescr = [] then Inl UndefinedBehaviour
      else if last optDescr = CHR ''.'' then Inl AssertionFailed
      else if optName = ''help'' then
        (if optDefVal \<noteq> [] then Inl AssertionFailed
         else Inr \<lparr>name = optName, flags = [''-h'', ''--help''],
                   description = ''print this help message'', defaultValue = optDescr\<rparr>)
      else if optName = ''version'' then
        (if optDefVal \<noteq> [] then Inl AssertionFailed
         else Inr \<lparr>name = optName, flags = [''-v'', ''--version''],
                   description = ''print program version'', defaultValue = optDescr\<rparr>)
      else
        (if optDescr = [] then Inl AssertionFailed
         else Inr \<lparr>name = optName, flags = [], description = optDescr,
                   defaultValue = optDefVal\<rparr>))"

text \<open>
  The loop of the constructor taking an initializer list: a dash-prefixed entry is a flag,
  any other entry is the name, and only one name is allowed. \<^verbatim>\<open>f.front()\<close> on an empty
  entry is undefined.
\<close>

fun assignFlags :: "string list \<Rightarrow> ProgramOption \<Rightarrow> failure + ProgramOption" where
  "assignFlags [] opt = Inr opt"
| "assignFlags (f # fs) opt =
     (if f = [] then Inl UndefinedBehaviour
      else if startsWithDash f then assignFlags fs (opt\<lparr>flags := flags opt @ [f]\<rparr>)
      else if name opt \<noteq> [] then Inl AssertionFailed
      else assignFlags fs (opt\<lparr>name := f\<rparr>))"

definition ProgramOption_flags :: "string list \<Rightarrow> string \<Rightarrow> string \<Rightarrow> failure + ProgramOption" where
  "ProgramOption_flags optFlags optDescr optDefVal =
     (if optDescr = [] then Inl UndefinedBehaviour
      else if last optDescr = CHR ''.'' then Inl AssertionFailed
      else assignFlags optFlags
             \<lparr>name = [], flags = [], description = optDescr, defaultValue = optDefVal\<rparr>)"

subsection \<open>The help message\<close>

text \<open>\<^verbatim>\<open>std::string::find_last_of(char)\<close>: the last index of the character, \<open>None\<close> for \<^verbatim>\<open>npos\<close>.\<close>

fun find_last_of :: "char \<Rightarrow> string \<Rightarrow> nat option" where
  "find_last_of c [] = None"
| "find_last_of c (x # xs) =
     (case find_last_of c xs of
        Some i \<Rightarrow> Some (Suc i)
      | None \<Rightarrow> if x = c then Some 0 else None)"

text \<open>
  \<open>win32\<close> stands for the macro \<^verbatim>\<open>_WIN32\<close>. There \<^verbatim>\<open>lastAntiSlash + 1\<close> wraps to 0 when
  the backslash is not found (\<^verbatim>\<open>npos\<close> is the largest \<^verbatim>\<open>size_t\<close>).
\<close>

definition extractProgramName :: "bool \<Rightarrow> string \<Rightarrow> string" where
  "extractProgramName win32 argv0 =
     (let lastSlash = (case find_last_of CHR ''/'' argv0 of None \<Rightarrow> 0 | Some i \<Rightarrow> i + 1);
          lastAntiSlash1 = (case find_last_of (CHR 0x5C) argv0 of None \<Rightarrow> 0 | Some i \<Rightarrow> i + 1);
          lastSlash' = (if win32 \<and> lastAntiSlash1 > lastSlash then lastAntiSlash1 else lastSlash)
      in drop lastSlash' argv0)"

text \<open>The inner loops that join the flags of one option with a separator.\<close>

fun appendFlags :: "string \<Rightarrow> string list \<Rightarrow> string \<Rightarrow> string" where
  "appendFlags sep [] acc = acc"
| "appendFlags sep (f # fs) acc =
     appendFlags sep fs ((if acc \<noteq> [] then acc @ sep else acc) @ f)"

text \<open>First loop of \<^verbatim>\<open>displayHelpMessage\<close>: (aboutMsg, allPositionals, helpAndVersion).\<close>

fun helpHeader :: "ProgramOption list \<Rightarrow> string \<times> string \<times> string \<Rightarrow> string \<times> string \<times> string" where
  "helpHeader [] acc = acc"
| "helpHeader (opt # opts) (aboutMsg, allPositionals, helpAndVersion) =
     (if name opt = ''help'' then
        helpHeader opts (defaultValue opt, allPositionals,
                         appendFlags '' | '' (flags opt) helpAndVersion)
      else if name opt = ''version'' then
        helpHeader opts (aboutMsg, allPositionals,
                         appendFlags '' | '' (flags opt) helpAndVersion)
      else if name opt \<noteq> [] then
        helpHeader opts (aboutMsg, allPositionals @ '' '' @ name opt, helpAndVersion)
      else helpHeader opts (aboutMsg, allPositionals, helpAndVersion))"

text \<open>Second loop: one line for every option that has flags, padded to column 20.\<close>

fun helpOptionLines :: "ProgramOption list \<Rightarrow> string" where
  "helpOptionLines [] = []"
| "helpOptionLines (opt # opts) =
     (if flags opt \<noteq> [] then
        (let allFlags = appendFlags '', '' (flags opt) [];
             paddingLength = (if length allFlags < 20 then 20 - length allFlags else 0)
         in ''  '' @ allFlags @ replicate paddingLength CHR '' '' @ description opt @ nl)
      else []) @ helpOptionLines opts"

definition displayHelpMessage :: "bool \<Rightarrow> string \<Rightarrow> ProgramOption list \<Rightarrow> string" where
  "displayHelpMessage win32 argv0 options =
     (case helpHeader options ([], [], []) of
        (aboutMsg, allPositionals, helpAndVersion) \<Rightarrow>
          (let progName = extractProgramName win32 argv0 in
             ''Usage: '' @ progName @ '' [OPTIONS]'' @ allPositionals @ nl
             @ (if helpAndVersion \<noteq> [] then
                  ''       '' @ progName @ '' ['' @ helpAndVersion @ '']'' @ nl
                else [])
             @ nl
             @ (if aboutMsg \<noteq> [] then aboutMsg @ ''.'' @ nl @ nl else [])
             @ ''Options:'' @ nl
             @ nl
             @ helpOptionLines options
             @ nl))"

subsection \<open>The result mapping\<close>

text \<open>
  \<^verbatim>\<open>std::map<std::string, std::string>\<close> is a partial map. Reading \<^verbatim>\<open>result[k]\<close> gives
  the empty string for a key that is not there.
\<close>

definition value_at :: "result_map \<Rightarrow> string \<Rightarrow> string" where
  "value_at result k = (case result k of None \<Rightarrow> [] | Some v \<Rightarrow> v)"

text \<open>\<^verbatim>\<open>priv::setValue\<close>: the key is the option's name.\<close>

definition setValue :: "result_map \<Rightarrow> ProgramOption \<Rightarrow> string \<Rightarrow> failure + result_map" where
  "setValue result opt v =
     (if value_at result (name opt) \<noteq> [] then Inl AssertionFailed
      else Inr (result(name opt \<mapsto> v)))"

subsection \<open>Flag table and defaults\<close>

text \<open>The inner loop over \<^verbatim>\<open>opt.flags\<close>.\<close>

fun registerFlags ::
  "ProgramOption \<Rightarrow> string list \<Rightarrow> flag_table \<times> result_map \<Rightarrow> failure + flag_table \<times> result_map" where
  "registerFlags opt [] tabs = Inr tabs"
| "registerFlags opt (n # ns) (allFlags, result) =
     (if allFlags n \<noteq> None then Inl AssertionFailed
      else registerFlags opt ns (allFlags(n \<mapsto> opt), result(n \<mapsto> defaultValue opt)))"

text \<open>The outer loop over the options: (allFlags, result, positionalOption).\<close>

fun buildTables ::
  "ProgramOption list \<Rightarrow> flag_table \<times> result_map \<times> ProgramOption
     \<Rightarrow> failure + flag_table \<times> result_map \<times> ProgramOption" where
  "buildTables [] tabs = Inr tabs"
| "buildTables (opt # opts) (allFlags, result, positionalOption) =
     (case registerFlags opt (flags opt) (allFlags, result) of
        Inl e \<Rightarrow> Inl e
      | Inr (allFlags', result') \<Rightarrow>
          if name opt \<noteq> [] \<and> flags opt = [] \<and> name opt \<noteq> ''help'' \<and> name opt \<noteq> ''version'' then
            (if name positionalOption \<noteq> [] then Inl AssertionFailed
             else buildTables opts (allFlags', result', opt))
          else buildTables opts (allFlags', result', positionalOption))"

definition initialTables :: "flag_table \<times> result_map \<times> ProgramOption" where
  "initialTables = (Map.empty, Map.empty, emptyOption)"

subsection \<open>Processing the command line\<close>

text \<open>
  The loop \<^verbatim>\<open>for (int i = 1; i < argc; ++i)\<close> over the tokens that remain, with the state
  (result, positionalOption). \<open>Inr\<close> is the state when the loop ends; \<open>Inl\<close> is how the
  process ended inside the loop. \<^verbatim>\<open>arg.front()\<close> on an empty token is undefined, while
  \<^verbatim>\<open>argv[i][0]\<close> on an empty token reads its terminating zero.
\<close>

fun scan ::
  "bool \<Rightarrow> string \<Rightarrow> ProgramOption list \<Rightarrow> flag_table \<Rightarrow> string list
     \<Rightarrow> result_map \<times> ProgramOption \<Rightarrow> failure + result_map \<times> ProgramOption" where
  "scan win32 argv0 options allFlags [] st = Inr st"
| "scan win32 argv0 options allFlags (arg # rest) (result, positionalOption) =
     (if arg = [] then Inl UndefinedBehaviour
      else if startsWithDash arg then
        (case allFlags arg of
           Some opt \<Rightarrow>
             if name opt = ''help'' then
               Inl (Exit 0 (displayHelpMessage win32 argv0 options) [])
             else if name opt = ''version'' then
               Inl (Exit 0 (defaultValue opt @ nl) [])
             else if name opt \<noteq> [] then
               (case rest of
                  [] \<Rightarrow>
                    Inl (Exit 1 []
                      (''Error: missing value for option '' @ quote @ arg @ quote
                       @ '' ('' @ description opt @ '').'' @ nl))
                | v # rest' \<Rightarrow>
                    if startsWithDash v then
                      Inl (Exit 1 []
                        (''Error: missing value for option '' @ quote @ arg @ quote
                         @ '' ('' @ description opt @ '').'' @ nl))
                    else
                      (case setValue result opt v of
                         Inl e \<Rightarrow> Inl e
                       | Inr result' \<Rightarrow>
                           scan win32 argv0 options allFlags rest' (result', positionalOption)))
             else
               (case setValue result opt ''true'' of
                  Inl e \<Rightarrow> Inl e
                | Inr result' \<Rightarrow>
                    scan win32 argv0 options allFlags rest (result', positionalOption))
         | None \<Rightarrow>
             Inl (Exit 1 (displayHelpMessage win32 argv0 options)
                    (''Error: unknown option '' @ quote @ arg @ quote @ nl)))
      else if name positionalOption \<noteq> [] then
        (case setValue result positionalOption arg of
           Inl e \<Rightarrow> Inl e
         | Inr result' \<Rightarrow> scan win32 argv0 options allFlags rest (result', emptyOption))
      else
        Inl (Exit 1 (displayHelpMessage win32 argv0 options)
               (''Error: unexpected value '' @ quote @ arg @ quote @ ''.'' @ nl)))"

text \<open>
  The tables are built, then the loop runs over the tokens: the state after the loop, or
  how the process ended before.
\<close>

definition run ::
  "bool \<Rightarrow> string \<Rightarrow> ProgramOption list \<Rightarrow> string list \<Rightarrow> failure + result_map \<times> ProgramOption" where
  "run win32 argv0 options args =
     (case buildTables options initialTables of
        Inl e \<Rightarrow> Inl e
      | Inr (allFlags, result, positionalOption) \<Rightarrow>
          scan win32 argv0 options allFlags args (result, positionalOption))"

text \<open>
  The check after the loop that the positional argument is set. \<^verbatim>\<open>argv[0]\<close> is the null
  pointer when \<^verbatim>\<open>argc\<close> is 0, and a \<^verbatim>\<open>std::string\<close> built from it is undefined.
\<close>

definition checkPositional ::
  "bool \<Rightarrow> string list \<Rightarrow> ProgramOption list \<Rightarrow> result_map \<times> ProgramOption \<Rightarrow> failure + result_map" where
  "checkPositional win32 argv options st =
     (case st of (result, positionalOption) \<Rightarrow>
        if name positionalOption \<noteq> [] then
          (if value_at result (name positionalOption) \<noteq> [] then Inl AssertionFailed
           else
             (case argv of
                [] \<Rightarrow> Inl UndefinedBehaviour
              | argv0 # _ \<Rightarrow>
                  Inl (Exit 1 (displayHelpMessage win32 argv0 options)
                    (''Error: missing '' @ quote @ name positionalOption @ quote
                     @ '' value ('' @ description positionalOption @ '').'' @ nl))))
        else Inr result)"

text \<open>
  \<^verbatim>\<open>cmdline::parse(argc, argv, options)\<close>, with \<open>argc = length argv\<close>. The loop starts at
  index 1, so it does not run when \<open>argv\<close> is empty.
\<close>

definition parse :: "bool \<Rightarrow> string list \<Rightarrow> ProgramOption list \<Rightarrow> failure + result_map" where
  "parse win32 argv options =
     (case argv of
        [] \<Rightarrow>
          (case buildTables options initialTables of
             Inl e \<Rightarrow> Inl e
           | Inr (allFlags, st) \<Rightarrow> checkPositional win32 argv options st)
      | argv0 # args \<Rightarrow>
          (case run win32 argv0 options args of
             Inl e \<Rightarrow> Inl e
           | Inr st \<Rightarrow> checkPositional win32 argv options st))"

subsection \<open>A schema for the examples\<close>

text \<open>
  The options of the example in the header's comment, with the about text of the
  specification's scenarios (the description may not end with a period) and with an
  output option that has a name, so that it takes a value.
\<close>

definition optHelp :: ProgramOption where
  "optHelp = \<lparr>name = ''help'', flags = [''-h'', ''--help''],
              description = ''print this help message'', defaultValue = ''Rename a file''\<rparr>"

definition optVersion :: ProgramOption where
  "optVersion = \<lparr>name = ''version'', flags = [''-v'', ''--version''],
                 description = ''print program version'', defaultValue = ''1.0''\<rparr>"

definition optInput :: ProgramOption where
  "optInput = \<lparr>name = ''input'', flags = [], description = ''Input file to rename'',
               defaultValue = []\<rparr>"

definition optInputDefault :: ProgramOption where
  "optInputDefault = \<lparr>name = ''input'', flags = [], description = ''Input file to rename'',
                      defaultValue = ''in.txt''\<rparr>"

definition optOutput :: ProgramOption where
  "optOutput = \<lparr>name = ''output'', flags = [''-o'', ''--output''],
                description = ''Output file name'', defaultValue = ''output.txt''\<rparr>"

definition optVerbose :: ProgramOption where
  "optVerbose = \<lparr>name = [], flags = [''--verbose''],
                 description = ''Print more info about what is being done'',
                 defaultValue = []\<rparr>"

definition exampleSchema :: "ProgramOption list" where
  "exampleSchema = [optHelp, optVersion, optInput, optOutput, optVerbose]"

text \<open>The same schema with a default for the positional option, and one with no positional option.\<close>

definition exampleSchemaDefault :: "ProgramOption list" where
  "exampleSchemaDefault = [optHelp, optVersion, optInputDefault, optOutput, optVerbose]"

definition flagsOnlySchema :: "ProgramOption list" where
  "flagsOnlySchema = [optHelp, optOutput, optVerbose]"

text \<open>Schemas in which an option with a flag has the name of the positional option.\<close>

definition optOutputAsInput :: ProgramOption where
  "optOutputAsInput = \<lparr>name = ''input'', flags = [''-o''],
                       description = ''Output file name'', defaultValue = []\<rparr>"

definition sharedNameSchema :: "ProgramOption list" where
  "sharedNameSchema = [optInput, optOutputAsInput]"

definition sharedNameSchemaDefault :: "ProgramOption list" where
  "sharedNameSchemaDefault = [optInputDefault, optOutputAsInput]"

section \<open>Properties\<close>

subsection \<open>One step of the loop, branch by branch\<close>

lemma scan_empty_token:
  "scan w a0 os af ([] # rest) st = Inl UndefinedBehaviour"
  by (cases st) simp

lemma scan_unknown:
  "arg \<noteq> [] \<Longrightarrow> startsWithDash arg \<Longrightarrow> af arg = None \<Longrightarrow>
   scan w a0 os af (arg # rest) st =
     Inl (Exit 1 (displayHelpMessage w a0 os) (''Error: unknown option '' @ quote @ arg @ quote @ nl))"
  by (cases st) simp

lemma scan_help:
  "arg \<noteq> [] \<Longrightarrow> startsWithDash arg \<Longrightarrow> af arg = Some opt \<Longrightarrow> name opt = ''help'' \<Longrightarrow>
   scan w a0 os af (arg # rest) st = Inl (Exit 0 (displayHelpMessage w a0 os) [])"
  by (cases st) simp

lemma scan_version:
  "arg \<noteq> [] \<Longrightarrow> startsWithDash arg \<Longrightarrow> af arg = Some opt \<Longrightarrow> name opt = ''version'' \<Longrightarrow>
   scan w a0 os af (arg # rest) st = Inl (Exit 0 (defaultValue opt @ nl) [])"
  by (cases st) simp

lemma scan_missing_value:
  "arg \<noteq> [] \<Longrightarrow> startsWithDash arg \<Longrightarrow> af arg = Some opt \<Longrightarrow> name opt \<noteq> [] \<Longrightarrow>
   name opt \<noteq> ''help'' \<Longrightarrow> name opt \<noteq> ''version'' \<Longrightarrow>
   rest = [] \<or> startsWithDash (hd rest) \<Longrightarrow>
   scan w a0 os af (arg # rest) st =
     Inl (Exit 1 [] (''Error: missing value for option '' @ quote @ arg @ quote
                     @ '' ('' @ description opt @ '').'' @ nl))"
  by (cases st; cases rest) auto

lemma scan_value:
  "arg \<noteq> [] \<Longrightarrow> startsWithDash arg \<Longrightarrow> af arg = Some opt \<Longrightarrow> name opt \<noteq> [] \<Longrightarrow>
   name opt \<noteq> ''help'' \<Longrightarrow> name opt \<noteq> ''version'' \<Longrightarrow> \<not> startsWithDash v \<Longrightarrow>
   scan w a0 os af (arg # v # rest) (r, p) =
     (case setValue r opt v of
        Inl e \<Rightarrow> Inl e
      | Inr r' \<Rightarrow> scan w a0 os af rest (r', p))"
  by simp

lemma scan_pure:
  "arg \<noteq> [] \<Longrightarrow> startsWithDash arg \<Longrightarrow> af arg = Some opt \<Longrightarrow> name opt = [] \<Longrightarrow>
   scan w a0 os af (arg # rest) (r, p) =
     (case setValue r opt ''true'' of
        Inl e \<Rightarrow> Inl e
      | Inr r' \<Rightarrow> scan w a0 os af rest (r', p))"
  by simp

lemma scan_bare:
  "arg \<noteq> [] \<Longrightarrow> \<not> startsWithDash arg \<Longrightarrow> name p \<noteq> [] \<Longrightarrow>
   scan w a0 os af (arg # rest) (r, p) =
     (case setValue r p arg of
        Inl e \<Rightarrow> Inl e
      | Inr r' \<Rightarrow> scan w a0 os af rest (r', emptyOption))"
  by simp

lemma scan_unexpected:
  "arg \<noteq> [] \<Longrightarrow> \<not> startsWithDash arg \<Longrightarrow> name p = [] \<Longrightarrow>
   scan w a0 os af (arg # rest) (r, p) =
     Inl (Exit 1 (displayHelpMessage w a0 os)
            (''Error: unexpected value '' @ quote @ arg @ quote @ ''.'' @ nl))"
  by simp

declare scan.simps(2) [simp del]

subsection \<open>The flag table and the seeded defaults\<close>

lemma registerFlags_preserve:
  "registerFlags opt ns (af, res) = Inr (af', res') \<Longrightarrow> af k = Some x \<Longrightarrow> af' k = Some x"
proof (induction ns arbitrary: af res)
  case Nil
  then show ?case by simp
next
  case (Cons m ms)
  from Cons.prems(1) have free: "af m = None"
    and rec: "registerFlags opt ms (af(m \<mapsto> opt), res(m \<mapsto> defaultValue opt)) = Inr (af', res')"
    by (auto split: if_splits)
  from free Cons.prems(2) have "(af(m \<mapsto> opt)) k = Some x" by auto
  then show ?case by (rule Cons.IH [OF rec])
qed

lemma registerFlags_owner:
  "registerFlags opt ns (af, res) = Inr (af', res') \<Longrightarrow> n \<in> set ns \<Longrightarrow> af' n = Some opt"
proof (induction ns arbitrary: af res)
  case Nil
  then show ?case by simp
next
  case (Cons m ms)
  from Cons.prems(1) have free: "af m = None"
    and rec: "registerFlags opt ms (af(m \<mapsto> opt), res(m \<mapsto> defaultValue opt)) = Inr (af', res')"
    by (auto split: if_splits)
  show ?case
  proof (cases "n = m")
    case True
    then show ?thesis using registerFlags_preserve [OF rec, of m opt] by simp
  next
    case False
    with Cons.prems(2) have "n \<in> set ms" by simp
    then show ?thesis using Cons.IH [OF rec] by simp
  qed
qed

lemma registerFlags_seed:
  "registerFlags opt ns (af, res) = Inr (af', res') \<Longrightarrow>
   \<forall>k. res k = map_option defaultValue (af k) \<Longrightarrow>
   res' k = map_option defaultValue (af' k)"
proof (induction ns arbitrary: af res)
  case Nil
  then show ?case by auto
next
  case (Cons m ms)
  from Cons.prems(1) have
    rec: "registerFlags opt ms (af(m \<mapsto> opt), res(m \<mapsto> defaultValue opt)) = Inr (af', res')"
    by (auto split: if_splits)
  have "\<forall>k. (res(m \<mapsto> defaultValue opt)) k = map_option defaultValue ((af(m \<mapsto> opt)) k)"
    using Cons.prems(2) by simp
  then show ?case by (rule Cons.IH [OF rec])
qed

lemma registerFlags_dom:
  "registerFlags opt ns (af, res) = Inr (af', res') \<Longrightarrow> dom af' = dom af \<union> set ns"
proof (induction ns arbitrary: af res)
  case Nil
  then show ?case by auto
next
  case (Cons m ms)
  from Cons.prems(1) have
    rec: "registerFlags opt ms (af(m \<mapsto> opt), res(m \<mapsto> defaultValue opt)) = Inr (af', res')"
    by (auto split: if_splits)
  from Cons.IH [OF rec] show ?case by auto
qed

lemma buildTables_Cons:
  assumes "buildTables (x # xs) (af, res, p) = Inr (af', res', p')"
  obtains af1 res1 p1 where
    "registerFlags x (flags x) (af, res) = Inr (af1, res1)"
    "buildTables xs (af1, res1, p1) = Inr (af', res', p')"
    "p1 = p \<or> (p1 = x \<and> flags x = [] \<and> name x \<noteq> []
       \<and> name x \<noteq> ''help'' \<and> name x \<noteq> ''version'')"
  using assms by (auto split: sum.splits if_splits)

lemma buildTables_preserve:
  "buildTables opts (af, res, p) = Inr (af', res', p') \<Longrightarrow> af k = Some x \<Longrightarrow> af' k = Some x"
proof (induction opts arbitrary: af res p)
  case Nil
  then show ?case by simp
next
  case (Cons y ys)
  from Cons.prems(1) obtain af1 res1 p1 where
    reg: "registerFlags y (flags y) (af, res) = Inr (af1, res1)"
    and rec: "buildTables ys (af1, res1, p1) = Inr (af', res', p')"
    by (rule buildTables_Cons)
  from registerFlags_preserve [OF reg Cons.prems(2)] show ?case
    by (rule Cons.IH [OF rec])
qed

lemma buildTables_owner:
  "buildTables opts (af, res, p) = Inr (af', res', p') \<Longrightarrow> opt \<in> set opts \<Longrightarrow>
   f \<in> set (flags opt) \<Longrightarrow> af' f = Some opt"
proof (induction opts arbitrary: af res p)
  case Nil
  then show ?case by simp
next
  case (Cons x xs)
  from Cons.prems(1) obtain af1 res1 p1 where
    reg: "registerFlags x (flags x) (af, res) = Inr (af1, res1)"
    and rec: "buildTables xs (af1, res1, p1) = Inr (af', res', p')"
    by (rule buildTables_Cons)
  show ?case
  proof (cases "opt = x")
    case True
    with Cons.prems(3) reg have "af1 f = Some opt"
      by (simp add: registerFlags_owner)
    then show ?thesis by (rule buildTables_preserve [OF rec])
  next
    case False
    with Cons.prems(2) have "opt \<in> set xs" by simp
    then show ?thesis using Cons.IH [OF rec _ Cons.prems(3)] by simp
  qed
qed

lemma buildTables_seed:
  "buildTables opts (af, res, p) = Inr (af', res', p') \<Longrightarrow>
   \<forall>k. res k = map_option defaultValue (af k) \<Longrightarrow>
   res' k = map_option defaultValue (af' k)"
proof (induction opts arbitrary: af res p)
  case Nil
  then show ?case by auto
next
  case (Cons x xs)
  from Cons.prems(1) obtain af1 res1 p1 where
    reg: "registerFlags x (flags x) (af, res) = Inr (af1, res1)"
    and rec: "buildTables xs (af1, res1, p1) = Inr (af', res', p')"
    by (rule buildTables_Cons)
  have "\<forall>k. res1 k = map_option defaultValue (af1 k)"
    using registerFlags_seed [OF reg Cons.prems(2)] by simp
  then show ?case by (rule Cons.IH [OF rec])
qed

lemma buildTables_dom:
  "buildTables opts (af, res, p) = Inr (af', res', p') \<Longrightarrow>
   dom af' = dom af \<union> (\<Union>opt \<in> set opts. set (flags opt))"
proof (induction opts arbitrary: af res p)
  case Nil
  then show ?case by auto
next
  case (Cons x xs)
  from Cons.prems(1) obtain af1 res1 p1 where
    reg: "registerFlags x (flags x) (af, res) = Inr (af1, res1)"
    and rec: "buildTables xs (af1, res1, p1) = Inr (af', res', p')"
    by (rule buildTables_Cons)
  have "dom af1 = dom af \<union> set (flags x)"
    using registerFlags_dom [OF reg] .
  moreover have "dom af' = dom af1 \<union> (\<Union>opt \<in> set xs. set (flags opt))"
    using Cons.IH [OF rec] .
  ultimately show ?case by auto
qed

lemma buildTables_positional:
  "buildTables opts (af, res, p) = Inr (af', res', p') \<Longrightarrow>
   p' = p \<or> (p' \<in> set opts \<and> flags p' = [] \<and> name p' \<noteq> []
     \<and> name p' \<noteq> ''help'' \<and> name p' \<noteq> ''version'')"
proof (induction opts arbitrary: af res p)
  case Nil
  then show ?case by simp
next
  case (Cons x xs)
  from Cons.prems(1) obtain af1 res1 p1 where
    rec: "buildTables xs (af1, res1, p1) = Inr (af', res', p')"
    and p1: "p1 = p \<or> (p1 = x \<and> flags x = [] \<and> name x \<noteq> []
       \<and> name x \<noteq> ''help'' \<and> name x \<noteq> ''version'')"
    by (rule buildTables_Cons)
  from Cons.IH [OF rec] p1 show ?case by auto
qed

lemma buildTables_no_positional:
  "buildTables opts (af, res, p) = Inr (af', res', p') \<Longrightarrow>
   \<forall>opt \<in> set opts. name opt = [] \<or> flags opt \<noteq> [] \<or> name opt = ''help'' \<or> name opt = ''version'' \<Longrightarrow>
   p' = p"
  using buildTables_positional by blast

text \<open>The tables of \<^verbatim>\<open>parse\<close>, built from empty maps.\<close>

lemma tables_owner:
  "buildTables os initialTables = Inr (af, r0, p0) \<Longrightarrow> opt \<in> set os \<Longrightarrow>
   f \<in> set (flags opt) \<Longrightarrow> af f = Some opt"
  unfolding initialTables_def by (rule buildTables_owner)

lemma tables_dom:
  "buildTables os initialTables = Inr (af, r0, p0) \<Longrightarrow>
   dom af = (\<Union>opt \<in> set os. set (flags opt))"
  unfolding initialTables_def using buildTables_dom by fastforce

lemma tables_seed:
  assumes "buildTables os initialTables = Inr (af, r0, p0)"
  shows "r0 k = map_option defaultValue (af k)"
proof -
  have "\<forall>k. (Map.empty :: result_map) k = map_option defaultValue ((Map.empty :: flag_table) k)"
    by simp
  from buildTables_seed [OF assms [unfolded initialTables_def] this] show ?thesis .
qed

lemma tables_unregistered:
  assumes "buildTables os initialTables = Inr (af, r0, p0)"
    and "\<forall>opt \<in> set os. f \<notin> set (flags opt)"
  shows "af f = None" and "r0 f = None"
proof -
  from tables_dom [OF assms(1)] assms(2) have "f \<notin> dom af" by simp
  then show "af f = None" by auto
  then show "r0 f = None" using tables_seed [OF assms(1), of f] by simp
qed

lemma tables_positional:
  assumes "buildTables os initialTables = Inr (af, r0, p0)" and "name p0 \<noteq> []"
  shows "p0 \<in> set os \<and> flags p0 = [] \<and> name p0 \<noteq> ''help'' \<and> name p0 \<noteq> ''version''"
  using buildTables_positional [OF assms(1) [unfolded initialTables_def]] assms(2)
  by (auto simp: emptyOption_def)

lemma run_Inr:
  assumes "run w a0 os args = Inr st"
  obtains af r0 p0 where "buildTables os initialTables = Inr (af, r0, p0)"
    and "scan w a0 os af args (r0, p0) = Inr st"
  using assms by (auto simp: run_def split: sum.splits)

lemma run_tables:
  "buildTables os initialTables = Inr (af, r0, p0) \<Longrightarrow>
   run w a0 os args = scan w a0 os af args (r0, p0)"
  by (simp add: run_def)

lemma parse_Cons:
  "parse w (a0 # args) os =
     (case run w a0 os args of
        Inl e \<Rightarrow> Inl e
      | Inr st \<Rightarrow> checkPositional w (a0 # args) os st)"
  by (simp add: parse_def)

subsection \<open>Loops that reach their end\<close>

text \<open>
  When the loop does not end the process, its first step took one of three branches: a
  pure flag, a flag with its value, or the bare token bound to the positional option.
\<close>

lemma scan_Cons_Inr:
  assumes ok: "scan w a0 os af (arg # rest) (r, p) = Inr st'"
  obtains
    (Pure) opt r' where "arg \<noteq> []" "startsWithDash arg" "af arg = Some opt" "name opt = []"
      "setValue r opt ''true'' = Inr r'" "scan w a0 os af rest (r', p) = Inr st'"
  | (Value) opt v vs r' where "arg \<noteq> []" "startsWithDash arg" "af arg = Some opt"
      "name opt \<noteq> []" "name opt \<noteq> ''help''" "name opt \<noteq> ''version''"
      "rest = v # vs" "\<not> startsWithDash v"
      "setValue r opt v = Inr r'" "scan w a0 os af vs (r', p) = Inr st'"
  | (Bare) r' where "arg \<noteq> []" "\<not> startsWithDash arg" "name p \<noteq> []"
      "setValue r p arg = Inr r'" "scan w a0 os af rest (r', emptyOption) = Inr st'"
proof -
  have ne: "arg \<noteq> []"
    using ok scan_empty_token [of w a0 os af rest "(r, p)"] by auto
  show thesis
  proof (cases "startsWithDash arg")
    case dash: True
    have "af arg \<noteq> None"
      using ok scan_unknown [where af = af, OF ne dash, of w a0 os rest "(r, p)"] by auto
    then obtain opt where opt: "af arg = Some opt" by auto
    have nh: "name opt \<noteq> ''help''"
      using ok scan_help [where af = af, OF ne dash opt, of w a0 os rest "(r, p)"] by auto
    have nv: "name opt \<noteq> ''version''"
      using ok scan_version [where af = af, OF ne dash opt, of w a0 os rest "(r, p)"] by auto
    show thesis
    proof (cases "name opt = []")
      case True
      from ok scan_pure [where af = af, OF ne dash opt True, of w a0 os rest r p]
      obtain r' where "setValue r opt ''true'' = Inr r'" "scan w a0 os af rest (r', p) = Inr st'"
        by (cases "setValue r opt ''true''") auto
      then show thesis using Pure ne dash opt True by blast
    next
      case named: False
      have "\<not> (rest = [] \<or> startsWithDash (hd rest))"
        using ok scan_missing_value [where af = af, OF ne dash opt named nh nv, of rest w a0 os "(r, p)"] by auto
      then obtain v vs where rest: "rest = v # vs" and nd: "\<not> startsWithDash v"
        by (cases rest) auto
      from ok scan_value [where af = af, OF ne dash opt named nh nv nd, of w a0 os vs r p] rest
      obtain r' where "setValue r opt v = Inr r'" "scan w a0 os af vs (r', p) = Inr st'"
        by (cases "setValue r opt v") auto
      then show thesis using Value ne dash opt named nh nv rest nd by blast
    qed
  next
    case bare: False
    have pn: "name p \<noteq> []"
      using ok scan_unexpected [OF ne bare, of p w a0 os af rest r] by auto
    from ok scan_bare [OF ne bare pn, of w a0 os af rest r]
    obtain r' where "setValue r p arg = Inr r'" "scan w a0 os af rest (r', emptyOption) = Inr st'"
      by (cases "setValue r p arg") auto
    then show thesis using Bare ne bare pn by blast
  qed
qed


lemma setValue_Inr:
  "setValue r opt v = Inr r' \<longleftrightarrow> value_at r (name opt) = [] \<and> r' = r(name opt \<mapsto> v)"
  by (auto simp: setValue_def)

lemma scan_Inr_induct [consumes 1, case_names Done Pure Value Bare]:
  assumes ok: "scan w a0 os af xs st = Inr st'"
    and Done: "P [] st'"
    and Pure: "\<And>arg rest r p opt r'.
      \<lbrakk>arg \<noteq> []; startsWithDash arg; af arg = Some opt; name opt = [];
       setValue r opt ''true'' = Inr r'; scan w a0 os af rest (r', p) = Inr st';
       P rest (r', p)\<rbrakk> \<Longrightarrow> P (arg # rest) (r, p)"
    and Value: "\<And>arg v rest r p opt r'.
      \<lbrakk>arg \<noteq> []; startsWithDash arg; af arg = Some opt; name opt \<noteq> [];
       name opt \<noteq> ''help''; name opt \<noteq> ''version''; \<not> startsWithDash v;
       setValue r opt v = Inr r'; scan w a0 os af rest (r', p) = Inr st';
       P rest (r', p)\<rbrakk> \<Longrightarrow> P (arg # v # rest) (r, p)"
    and Bare: "\<And>arg rest r p r'.
      \<lbrakk>arg \<noteq> []; \<not> startsWithDash arg; name p \<noteq> [];
       setValue r p arg = Inr r'; scan w a0 os af rest (r', emptyOption) = Inr st';
       P rest (r', emptyOption)\<rbrakk> \<Longrightarrow> P (arg # rest) (r, p)"
  shows "P xs st"
  using ok
proof (induction xs arbitrary: st rule: length_induct)
  case (1 xs)
  show ?case
  proof (cases xs)
    case Nil
    with "1.prems" Done show ?thesis by simp
  next
    case (Cons arg rest)
    obtain r p where st: "st = (r, p)" by (cases st)
    from "1.prems" have ok': "scan w a0 os af (arg # rest) (r, p) = Inr st'"
      unfolding Cons st .
    from ok' show ?thesis
    proof (cases rule: scan_Cons_Inr)
      case (Pure opt r')
      have "P rest (r', p)" using "1.IH" Pure(6) Cons by simp
      then show ?thesis unfolding Cons st
        using Pure by (intro assms(3)) 
    next
      case (Value opt v vs r')
      have "P vs (r', p)" using "1.IH" Value(10) Value(7) Cons by simp
      then show ?thesis unfolding Cons st Value(7)
        using Value by (intro assms(4))
    next
      case (Bare r')
      have "P rest (r', emptyOption)" using "1.IH" Bare(5) Cons by simp
      then show ?thesis unfolding Cons st
        using Bare by (intro assms(5))
    qed
  qed
qed

lemma scan_append:
  assumes "scan w a0 os af pre st = Inr st'"
  shows "scan w a0 os af (pre @ rest) st = scan w a0 os af rest st'"
  using assms
proof (induction rule: scan_Inr_induct)
  case Done
  show ?case by simp
next
  case (Pure arg rest' r p opt r')
  then show ?case
    using scan_pure [where af = af, OF Pure(1-4), of w a0 os "rest' @ rest" r p] by simp
next
  case (Value arg v rest' r p opt r')
  then show ?case
    using scan_value [where af = af, OF Value(1-7), of w a0 os "rest' @ rest" r p] by simp
next
  case (Bare arg rest' r p r')
  then show ?case
    using scan_bare [OF Bare(1-3), of w a0 os af "rest' @ rest" r] by simp
qed

lemma setValue_keeps:
  assumes "setValue r opt x = Inr r'" and "r k = Some v" and "v \<noteq> []"
  shows "r' k = Some v"
proof -
  from assms(1) have e: "value_at r (name opt) = []" and r': "r' = r(name opt \<mapsto> x)"
    by (simp_all add: setValue_Inr)
  from e assms(2,3) have "name opt \<noteq> k" by (auto simp: value_at_def)
  with r' assms(2) show ?thesis by simp
qed

lemma scan_keeps_value:
  assumes "scan w a0 os af xs st = Inr st'"
    and "fst st k = Some v" and "v \<noteq> []"
  shows "fst st' k = Some v"
  using assms
proof (induction rule: scan_Inr_induct)
  case Done
  then show ?case by simp
next
  case (Pure arg rest r p opt r')
  then show ?case using setValue_keeps [OF Pure(5), of k v] by simp
next
  case (Value arg x rest r p opt r')
  then show ?case using setValue_keeps [OF Value(8), of k v] by simp
next
  case (Bare arg rest r p r')
  then show ?case using setValue_keeps [OF Bare(4), of k v] by simp
qed

lemma scan_positional_closed:
  assumes "scan w a0 os af xs st = Inr st'"
    and "name (snd st) = []"
  shows "name (snd st') = []"
  using assms
proof (induction rule: scan_Inr_induct)
  case Done
  then show ?case by simp
next
  case (Pure arg rest r p opt r')
  then show ?case by simp
next
  case (Value arg v rest r p opt r')
  then show ?case by simp
next
  case (Bare arg rest r p r')
  then show ?case by simp
qed

lemma scan_positional_open:
  assumes "scan w a0 os af xs st = Inr st'"
    and "name (snd st') \<noteq> []"
  shows "snd st' = snd st"
  using assms
proof (induction rule: scan_Inr_induct)
  case Done
  then show ?case by simp
next
  case (Pure arg rest r p opt r')
  then show ?case by simp
next
  case (Value arg v rest r p opt r')
  then show ?case by simp
next
  case (Bare arg rest r p r')
  then show ?case by (simp add: emptyOption_def)
qed

lemma scan_dash_only:
  assumes "scan w a0 os af xs st = Inr st'"
    and "\<forall>t \<in> set xs. startsWithDash t"
  shows "snd st' = snd st \<and> (\<forall>k. k \<noteq> [] \<longrightarrow> fst st' k = fst st k)"
  using assms
proof (induction rule: scan_Inr_induct)
  case Done
  then show ?case by simp
next
  case (Pure arg rest r p opt r')
  then show ?case by (auto simp: setValue_Inr)
next
  case (Value arg v rest r p opt r')
  then show ?case by simp
next
  case (Bare arg rest r p r')
  then show ?case by simp
qed

lemma scan_reaches:
  assumes "scan w a0 os af (pre @ f # rest) st = Inr st''" and "startsWithDash f"
  shows "\<exists>st'. scan w a0 os af pre st = Inr st'"
  using assms(1)
proof (induction pre arbitrary: st rule: length_induct)
  case (1 pre)
  show ?case
  proof (cases pre)
    case Nil
    then show ?thesis by simp
  next
    case (Cons arg pre')
    obtain r p where st: "st = (r, p)" by (cases st)
    from "1.prems" have ok: "scan w a0 os af (arg # (pre' @ f # rest)) (r, p) = Inr st''"
      unfolding Cons st by simp
    from ok show ?thesis
    proof (cases rule: scan_Cons_Inr)
      case (Pure opt r')
      from "1.IH" [rule_format, of pre' "(r', p)"] Pure(6) Cons
      obtain st' where "scan w a0 os af pre' (r', p) = Inr st'"
        by auto
      then show ?thesis unfolding Cons st
        using scan_pure [where af = af, OF Pure(1-4), of w a0 os pre' r p] Pure(5) by simp
    next
      case (Value opt v vs r')
      from Value(7,8) assms(2) obtain pre'' where p': "pre' = v # pre''" and vs: "vs = pre'' @ f # rest"
        by (cases pre') auto
      from "1.IH" [rule_format, of pre'' "(r', p)"] Value(10) Cons p' vs
      obtain st' where "scan w a0 os af pre'' (r', p) = Inr st'"
        by auto
      then show ?thesis unfolding Cons st p'
        using scan_value [where af = af, OF Value(1-6) Value(8), of w a0 os pre'' r p] Value(9) by simp
    next
      case (Bare r')
      from "1.IH" [rule_format, of pre' "(r', emptyOption)"] Bare(5) Cons
      obtain st' where "scan w a0 os af pre' (r', emptyOption) = Inr st'"
        by auto
      then show ?thesis unfolding Cons st
        using scan_bare [OF Bare(1-3), of w a0 os af pre' r] Bare(4) by simp
    qed
  qed
qed

lemma run_append:
  assumes "run w a0 os pre = Inr st"
    and "buildTables os initialTables = Inr (af, r0, p0)"
  shows "run w a0 os (pre @ rest) = scan w a0 os af rest st"
proof -
  from assms have "scan w a0 os af pre (r0, p0) = Inr st"
    by (simp add: run_tables)
  then show ?thesis
    using assms(2) by (simp add: run_tables scan_append)
qed

lemma parse_ends_in_loop:
  "run w a0 os args = Inl e \<Longrightarrow> parse w (a0 # args) os = Inl e"
  by (simp add: parse_Cons)

subsection \<open>Evaluation of the examples\<close>

lemmas schema_defs = exampleSchema_def optHelp_def optVersion_def optInput_def optOutput_def
  optVerbose_def optInputDefault_def

lemmas eval_defs = parse_def run_def checkPositional_def initialTables_def setValue_def
  value_at_def startsWithDash_def emptyOption_def scan.simps

lemma named_help:
  assumes "ProgramOption_named ''help'' about [] = Inr h"
  shows "name h = ''help''" and "flags h = [''-h'', ''--help'']" and "defaultValue h = about"
  using assms by (auto simp: ProgramOption_named_def split: if_splits)

lemma named_version:
  assumes "ProgramOption_named ''version'' ver [] = Inr v"
  shows "name v = ''version''" and "flags v = [''-v'', ''--version'']" and "defaultValue v = ver"
  using assms by (auto simp: ProgramOption_named_def split: if_splits)

lemma run_reaches_flag:
  assumes "run w a0 os pre = Inr st" and "opt \<in> set os" and "f \<in> set (flags opt)"
  obtains af where "af f = Some opt"
    and "run w a0 os (pre @ f # rest) = scan w a0 os af (f # rest) st"
proof -
  from assms(1) obtain af r0 p0 where b: "buildTables os initialTables = Inr (af, r0, p0)"
    by (rule run_Inr)
  from tables_owner [OF b assms(2,3)] run_append [OF assms(1) b, of "f # rest"]
  show thesis using that by blast
qed

subsection \<open>Reserved options\<close>

text \<open>
  Claim C4. The schema declares the reserved options \<open>help\<close> and \<open>version\<close> through the
  constructor; the tables are built and the loop has consumed the tokens \<open>pre\<close> without
  ending the process. If the next token is \<open>-h\<close> or \<open>--help\<close>, \<^verbatim>\<open>parse\<close> writes the help
  message to standard output and exits with code 0; if it is \<open>-v\<close> or \<open>--version\<close>, it
  writes the version string and a newline and exits with code 0. The tokens \<open>rest\<close> after it
  are arbitrary: they are never looked at.
\<close>

theorem C4_help_version_short_circuit:
  assumes "ProgramOption_named ''help'' about [] = Inr h" and "h \<in> set os"
    and "ProgramOption_named ''version'' ver [] = Inr v" and "v \<in> set os"
    and "run w a0 os pre = Inr st"
  shows "(f = ''-h'' \<or> f = ''--help'' \<longrightarrow>
            parse w (a0 # pre @ f # rest) os = Inl (Exit 0 (displayHelpMessage w a0 os) []))
       \<and> (f = ''-v'' \<or> f = ''--version'' \<longrightarrow>
            parse w (a0 # pre @ f # rest) os = Inl (Exit 0 (ver @ nl) []))"
proof (intro conjI impI)
  assume f: "f = ''-h'' \<or> f = ''--help''"
  then have fl: "f \<in> set (flags h)" and d: "f \<noteq> []" "startsWithDash f"
    using named_help(2) [OF assms(1)] by (auto simp: startsWithDash_def)
  from assms(5,2) fl obtain af where "af f = Some h"
    and "run w a0 os (pre @ f # rest) = scan w a0 os af (f # rest) st"
    by (rule run_reaches_flag)
  then have "run w a0 os (pre @ f # rest) = Inl (Exit 0 (displayHelpMessage w a0 os) [])"
    using scan_help [where af = af, OF d] named_help(1) [OF assms(1)] by simp
  then show "parse w (a0 # pre @ f # rest) os = Inl (Exit 0 (displayHelpMessage w a0 os) [])"
    by (rule parse_ends_in_loop)
next
  assume f: "f = ''-v'' \<or> f = ''--version''"
  then have fl: "f \<in> set (flags v)" and d: "f \<noteq> []" "startsWithDash f"
    using named_version(2) [OF assms(3)] by (auto simp: startsWithDash_def)
  from assms(5,4) fl obtain af where "af f = Some v"
    and "run w a0 os (pre @ f # rest) = scan w a0 os af (f # rest) st"
    by (rule run_reaches_flag)
  then have "run w a0 os (pre @ f # rest) = Inl (Exit 0 (ver @ nl) [])"
    using scan_version [where af = af, OF d] named_version(1,3) [OF assms(3)] by simp
  then show "parse w (a0 # pre @ f # rest) os = Inl (Exit 0 (ver @ nl) [])"
    by (rule parse_ends_in_loop)
qed

theorem C4_help_version_short_circuit_witness:
  "parse False [''prog'', ''a.txt'', ''--help'', ''--bogus'', ''-o''] exampleSchema
     = Inl (Exit 0 (displayHelpMessage False ''prog'' exampleSchema) [])
   \<and> parse False [''prog'', ''a.txt'', ''-v'', ''b.txt'', ''--bogus''] exampleSchema
     = Inl (Exit 0 (''1.0'' @ nl) [])"
proof -
  have h: "ProgramOption_named ''help'' ''Rename a file'' [] = Inr optHelp"
    by (simp add: ProgramOption_named_def optHelp_def)
  have v: "ProgramOption_named ''version'' ''1.0'' [] = Inr optVersion"
    by (simp add: ProgramOption_named_def optVersion_def)
  have hs: "optHelp \<in> set exampleSchema" and vs: "optVersion \<in> set exampleSchema"
    by (simp_all add: exampleSchema_def)
  obtain st where r: "run False ''prog'' exampleSchema [''a.txt''] = Inr st"
    by (simp add: eval_defs schema_defs)
  from C4_help_version_short_circuit [OF h hs v vs r, of "''--help''" "[''--bogus'', ''-o'']"]
    C4_help_version_short_circuit [OF h hs v vs r, of "''-v''" "[''b.txt'', ''--bogus'']"]
  show ?thesis by simp
qed

subsection \<open>Pure flags\<close>

text \<open>
  Claim C1. For a pure flag (dash-prefixed aliases only, empty name) the value under the
  flag's key should be \<open>true\<close> exactly when the flag is on the command line. The code does
  not do this: \<^verbatim>\<open>setValue\<close> stores under \<^verbatim>\<open>opt.name\<close>, which is empty for a pure flag.
  With the option \<open>--verbose\<close> of the header's example (default empty) and the command
  line \<open>prog --verbose\<close>, \<^verbatim>\<open>parse\<close> returns a map in which the key \<open>--verbose\<close> still holds
  the default and the empty key holds \<open>true\<close>.
\<close>

theorem C1_pure_flag_bound_under_empty_key:
  "ProgramOption_flags [''--verbose''] ''Print more info about what is being done'' [] = Inr optVerbose
   \<and> parse False [''prog'', ''--verbose''] [optVerbose]
       = Inr [''--verbose'' \<mapsto> [], [] \<mapsto> ''true'']"
  by (simp add: ProgramOption_flags_def eval_defs schema_defs)

subsection \<open>Options that take a value\<close>

text \<open>
  Claim C3, amended. The tables are built and the loop has consumed the tokens \<open>pre\<close>
  without ending the process. If the next token is a flag of a value-taking option (its
  name is neither empty nor reserved) and it is the last token, or the token after it
  starts with a dash, then \<^verbatim>\<open>parse\<close> writes the missing value error for that flag to
  standard error, writes nothing to standard output and exits with code 1; no map is
  returned, so no value is bound.
\<close>

theorem C3_missing_value:
  assumes "run w a0 os pre = Inr st"
    and "opt \<in> set os" and "f \<in> set (flags opt)" and "startsWithDash f"
    and "name opt \<noteq> []" and "name opt \<noteq> ''help''" and "name opt \<noteq> ''version''"
    and "post = [] \<or> startsWithDash (hd post)"
  shows "parse w (a0 # pre @ f # post) os =
           Inl (Exit 1 [] (''Error: missing value for option '' @ quote @ f @ quote
                           @ '' ('' @ description opt @ '').'' @ nl))"
proof -
  from assms(4) have ne: "f \<noteq> []" by (auto simp: startsWithDash_def)
  from assms(1-3) obtain af where "af f = Some opt"
    and "run w a0 os (pre @ f # post) = scan w a0 os af (f # post) st"
    by (rule run_reaches_flag)
  then have "run w a0 os (pre @ f # post) =
      Inl (Exit 1 [] (''Error: missing value for option '' @ quote @ f @ quote
                      @ '' ('' @ description opt @ '').'' @ nl))"
    using scan_missing_value [where af = af, OF ne assms(4) _ assms(5-8)] by simp
  then show ?thesis by (rule parse_ends_in_loop)
qed

theorem C3_missing_value_witness:
  "parse False [''prog'', ''a.txt'', ''-o''] exampleSchema =
     Inl (Exit 1 [] (''Error: missing value for option '' @ quote @ ''-o'' @ quote
                     @ '' (Output file name).'' @ nl))
   \<and> parse False [''prog'', ''--output'', ''--verbose'', ''a.txt''] exampleSchema =
     Inl (Exit 1 [] (''Error: missing value for option '' @ quote @ ''--output'' @ quote
                     @ '' (Output file name).'' @ nl))"
proof -
  obtain st where r: "run False ''prog'' exampleSchema [''a.txt''] = Inr st"
    by (simp add: eval_defs schema_defs)
  obtain st' where r': "run False ''prog'' exampleSchema [] = Inr st'"
    by (simp add: eval_defs schema_defs)
  have o: "optOutput \<in> set exampleSchema" by (simp add: exampleSchema_def)
  have "parse False (''prog'' # [''a.txt''] @ ''-o'' # []) exampleSchema =
     Inl (Exit 1 [] (''Error: missing value for option '' @ quote @ ''-o'' @ quote
                     @ '' ('' @ description optOutput @ '').'' @ nl))"
    by (rule C3_missing_value [OF r o]) (simp_all add: optOutput_def startsWithDash_def)
  moreover have "parse False (''prog'' # [] @ ''--output'' # [''--verbose'', ''a.txt'']) exampleSchema =
     Inl (Exit 1 [] (''Error: missing value for option '' @ quote @ ''--output'' @ quote
                     @ '' ('' @ description optOutput @ '').'' @ nl))"
    by (rule C3_missing_value [OF r' o]) (simp_all add: optOutput_def startsWithDash_def)
  ultimately show ?thesis by (simp add: optOutput_def)
qed

text \<open>
  Claim C3 as stated, for every argument vector, fails: in \<open>prog -h -o\<close> the last token is
  the flag of a value-taking option, and the process exits with code 0 at \<open>-h\<close>.
\<close>

theorem C3_counterexample:
  "parse False [''prog'', ''-h'', ''-o''] exampleSchema
     = Inl (Exit 0 (displayHelpMessage False ''prog'' exampleSchema) [])"
  by (simp add: eval_defs schema_defs)

subsection \<open>Unknown options\<close>

text \<open>
  Claim C6, amended. The tables are built and the loop has consumed the tokens \<open>pre\<close>
  without ending the process. If the next token starts with a dash and is not a flag of
  any option of the schema, \<^verbatim>\<open>parse\<close> writes the unknown option error with that token to
  standard error, writes the help message to standard output and exits with code 1.
\<close>

theorem C6_unknown_option:
  assumes "run w a0 os pre = Inr st"
    and "startsWithDash f"
    and "\<forall>opt \<in> set os. f \<notin> set (flags opt)"
  shows "parse w (a0 # pre @ f # rest) os =
           Inl (Exit 1 (displayHelpMessage w a0 os)
                  (''Error: unknown option '' @ quote @ f @ quote @ nl))"
proof -
  from assms(2) have ne: "f \<noteq> []" by (auto simp: startsWithDash_def)
  from assms(1) obtain af r0 p0 where b: "buildTables os initialTables = Inr (af, r0, p0)"
    by (rule run_Inr)
  from tables_unregistered(1) [OF b assms(3)] have "af f = None" .
  then have "run w a0 os (pre @ f # rest) =
      Inl (Exit 1 (displayHelpMessage w a0 os)
             (''Error: unknown option '' @ quote @ f @ quote @ nl))"
    using run_append [OF assms(1) b, of "f # rest"] scan_unknown [where af = af, OF ne assms(2)]
    by simp
  then show ?thesis by (rule parse_ends_in_loop)
qed

theorem C6_unknown_option_witness:
  "parse False [''prog'', ''a.txt'', ''--bogus'', ''-o''] exampleSchema =
     Inl (Exit 1 (displayHelpMessage False ''prog'' exampleSchema)
            (''Error: unknown option '' @ quote @ ''--bogus'' @ quote @ nl))"
proof -
  obtain st where r: "run False ''prog'' exampleSchema [''a.txt''] = Inr st"
    by (simp add: eval_defs schema_defs)
  have "parse False (''prog'' # [''a.txt''] @ ''--bogus'' # [''-o'']) exampleSchema =
     Inl (Exit 1 (displayHelpMessage False ''prog'' exampleSchema)
            (''Error: unknown option '' @ quote @ ''--bogus'' @ quote @ nl))"
    by (rule C6_unknown_option [OF r]) (simp_all add: schema_defs startsWithDash_def)
  then show ?thesis by simp
qed

text \<open>
  Claim C6 as stated, for every argument vector, fails: in \<open>prog a.txt -o --bogus\<close> the
  unknown token comes where the value of \<open>-o\<close> is expected. The error is the missing value
  of \<open>-o\<close>, it does not name the unknown token, and the help message is not written.
\<close>

theorem C6_counterexample:
  "parse False [''prog'', ''a.txt'', ''-o'', ''--bogus''] exampleSchema =
     Inl (Exit 1 [] (''Error: missing value for option '' @ quote @ ''-o'' @ quote
                     @ '' (Output file name).'' @ nl))
   \<and> displayHelpMessage False ''prog'' exampleSchema \<noteq> []"
  by (simp add: eval_defs schema_defs displayHelpMessage_def Let_def)

lemma checkPositional_Inr:
  "checkPositional w argv os (r, p) = Inr r' \<longleftrightarrow> name p = [] \<and> r' = r"
  by (auto simp: checkPositional_def split: list.splits)

lemma parse_Inr:
  assumes "parse w (a0 # args) os = Inr r"
  obtains p where "run w a0 os args = Inr (r, p)" and "name p = []"
proof -
  from assms obtain st where st: "run w a0 os args = Inr st"
    and c: "checkPositional w (a0 # args) os st = Inr r"
    by (auto simp: parse_Cons split: sum.splits)
  obtain r' p where "st = (r', p)" by (cases st)
  with st c that show thesis by (simp add: checkPositional_Inr)
qed

subsection \<open>Keys that the loop leaves alone\<close>

lemma registerFlags_range:
  "registerFlags opt ns (af, res) = Inr (af', res') \<Longrightarrow> af' k = Some x \<Longrightarrow>
   af k = Some x \<or> (x = opt \<and> k \<in> set ns)"
proof (induction ns arbitrary: af res)
  case Nil
  then show ?case by simp
next
  case (Cons m ms)
  from Cons.prems(1) have
    rec: "registerFlags opt ms (af(m \<mapsto> opt), res(m \<mapsto> defaultValue opt)) = Inr (af', res')"
    by (auto split: if_splits)
  from Cons.IH [OF rec Cons.prems(2)] show ?case
    by (auto split: if_splits)
qed

lemma buildTables_range:
  "buildTables opts (af, res, p) = Inr (af', res', p') \<Longrightarrow> af' k = Some x \<Longrightarrow>
   af k = Some x \<or> (x \<in> set opts \<and> k \<in> set (flags x))"
proof (induction opts arbitrary: af res p)
  case Nil
  then show ?case by simp
next
  case (Cons y ys)
  from Cons.prems(1) obtain af1 res1 p1 where
    reg: "registerFlags y (flags y) (af, res) = Inr (af1, res1)"
    and rec: "buildTables ys (af1, res1, p1) = Inr (af', res', p')"
    by (rule buildTables_Cons)
  from Cons.IH [OF rec Cons.prems(2)] registerFlags_range [OF reg, of k x]
  show ?case by auto
qed

lemma tables_range:
  assumes "buildTables os initialTables = Inr (af, r0, p0)" and "af k = Some x"
  shows "x \<in> set os \<and> k \<in> set (flags x)"
  using buildTables_range [OF assms(1) [unfolded initialTables_def] assms(2)] by simp

lemma scan_other_keys:
  assumes "scan w a0 os af xs st = Inr st'"
    and "\<forall>g x. af g = Some x \<longrightarrow> name x \<noteq> k" and "k \<noteq> []"
    and "name (snd st') \<noteq> []"
  shows "fst st' k = fst st k"
  using assms
proof (induction rule: scan_Inr_induct)
  case Done
  then show ?case by simp
next
  case (Pure arg rest r p opt r')
  then show ?case by (auto simp: setValue_Inr)
next
  case (Value arg v rest r p opt r')
  then show ?case by (auto simp: setValue_Inr)
next
  case (Bare arg rest r p r')
  from scan_positional_closed [OF Bare(5)] have "name (snd st') = []"
    by (simp add: emptyOption_def)
  with Bare.prems show ?case by simp
qed

lemma checkPositional_missing:
  "name p \<noteq> [] \<Longrightarrow> value_at r (name p) = [] \<Longrightarrow>
   checkPositional w (a0 # args) os (r, p) =
     Inl (Exit 1 (displayHelpMessage w a0 os)
            (''Error: missing '' @ quote @ name p @ quote
             @ '' value ('' @ description p @ '').'' @ nl))"
  by (simp add: checkPositional_def)

lemma scan_key_untouched:
  assumes "scan w a0 os af xs st = Inr st'"
    and "\<forall>g \<in> set xs. startsWithDash g \<longrightarrow> (\<forall>x. af g = Some x \<longrightarrow> name x \<noteq> k)"
    and "name (snd st) \<noteq> k" and "k \<noteq> []"
  shows "fst st' k = fst st k"
  using assms
proof (induction rule: scan_Inr_induct)
  case Done
  then show ?case by simp
next
  case (Pure arg rest r p opt r')
  then show ?case by (auto simp: setValue_Inr)
next
  case (Value arg v rest r p opt r')
  then show ?case by (auto simp: setValue_Inr)
next
  case (Bare arg rest r p r')
  then show ?case by (auto simp: setValue_Inr emptyOption_def)
qed

subsection \<open>The value bound to a value-taking option\<close>

text \<open>
  Claim C2, amended. If \<^verbatim>\<open>parse\<close> returns normally with the map \<open>r\<close> and a flag token \<open>f\<close>
  of a value-taking option occurs in the input, then a token \<open>v\<close> follows it and does not
  start with a dash, and the value of the option's key (its name) in \<open>r\<close> is \<open>v\<close> unless \<open>v\<close>
  is the empty string and the key is bound again later. The key is not bound again when
  no later dash-prefixed token is a flag of an option with the same name and no option
  without flags (the positional option) carries that name.
\<close>

theorem C2_value_is_next_token:
  assumes "parse w (a0 # pre @ f # post) os = Inr r"
    and "opt \<in> set os" and "f \<in> set (flags opt)" and "startsWithDash f"
    and "name opt \<noteq> []" and "name opt \<noteq> ''help''" and "name opt \<noteq> ''version''"
  shows "\<exists>v rest. post = v # rest \<and> \<not> startsWithDash v
           \<and> (v \<noteq> []
                \<or> ((\<forall>g \<in> set rest. startsWithDash g \<longrightarrow>
                       (\<forall>x \<in> set os. g \<in> set (flags x) \<longrightarrow> name x \<noteq> name opt))
                    \<and> (\<forall>x \<in> set os. flags x = [] \<longrightarrow> name x \<noteq> name opt))
                \<longrightarrow> r (name opt) = Some v)"
proof -
  from assms(1) obtain p where run: "run w a0 os (pre @ f # post) = Inr (r, p)"
    by (rule parse_Inr)
  then obtain af r0 p0 where b: "buildTables os initialTables = Inr (af, r0, p0)"
    and sc: "scan w a0 os af (pre @ f # post) (r0, p0) = Inr (r, p)"
    by (rule run_Inr)
  have owner: "af f = Some opt" by (rule tables_owner [OF b assms(2,3)])
  from scan_reaches [OF sc assms(4)] obtain st1 where
    pre: "scan w a0 os af pre (r0, p0) = Inr st1" by blast
  obtain r1 p1 where st1: "st1 = (r1, p1)" by (cases st1)
  from scan_append [OF pre, of "f # post"] sc st1
  have "scan w a0 os af (f # post) (r1, p1) = Inr (r, p)" by simp
  then show ?thesis
  proof (cases rule: scan_Cons_Inr)
    case (Pure opt' r')
    with owner assms(5) show ?thesis by simp
  next
    case (Value opt' v vs r')
    with owner have opt': "opt' = opt" by simp
    from Value(9) have bound: "r' (name opt) = Some v"
      by (simp add: setValue_Inr opt')
    have nonempty: "r (name opt) = Some v" if "v \<noteq> []"
      using scan_keeps_value [OF Value(10), of "name opt" v] bound that by simp
    have last: "r (name opt) = Some v"
      if later: "\<forall>g \<in> set vs. startsWithDash g \<longrightarrow>
                 (\<forall>x \<in> set os. g \<in> set (flags x) \<longrightarrow> name x \<noteq> name opt)"
        and pos: "\<forall>x \<in> set os. flags x = [] \<longrightarrow> name x \<noteq> name opt"
    proof -
      have flagsok: "\<forall>g \<in> set vs. startsWithDash g \<longrightarrow>
          (\<forall>x. af g = Some x \<longrightarrow> name x \<noteq> name opt)"
        using later tables_range [OF b] by blast
      have "name p1 \<noteq> name opt"
      proof (cases "name p1 = []")
        case True
        with assms(5) show ?thesis by simp
      next
        case False
        with scan_positional_open [OF pre] st1 have "p1 = p0" by simp
        with False tables_positional [OF b] pos show ?thesis by auto
      qed
      from scan_key_untouched [OF Value(10) flagsok _ assms(5)] this bound
      show ?thesis by simp
    qed
    from Value(7,8) nonempty last show ?thesis by blast
  next
    case (Bare r')
    with assms(4) show ?thesis by simp
  qed
qed

theorem C2_value_is_next_token_witness:
  "(\<exists>r. parse False [''prog'', ''a.txt'', ''--output'', ''b.txt'', ''--verbose''] exampleSchema = Inr r
        \<and> r ''output'' = Some ''b.txt'')
   \<and> (\<exists>r. parse False [''prog'', ''a.txt'', ''-o'', []] exampleSchema = Inr r
        \<and> r ''output'' = Some [])"
proof -
  obtain r where p: "parse False (''prog'' # [''a.txt''] @ ''--output'' # [''b.txt'', ''--verbose''])
      exampleSchema = Inr r"
    by (simp add: eval_defs schema_defs)
  have "\<exists>v rest. [''b.txt'', ''--verbose''] = v # rest \<and> \<not> startsWithDash v
           \<and> (v \<noteq> []
                \<or> ((\<forall>g \<in> set rest. startsWithDash g \<longrightarrow>
                       (\<forall>x \<in> set exampleSchema. g \<in> set (flags x) \<longrightarrow> name x \<noteq> name optOutput))
                    \<and> (\<forall>x \<in> set exampleSchema. flags x = [] \<longrightarrow> name x \<noteq> name optOutput))
                \<longrightarrow> r (name optOutput) = Some v)"
    by (rule C2_value_is_next_token [OF p, of optOutput])
       (simp_all add: schema_defs startsWithDash_def)
  then have first: "r ''output'' = Some ''b.txt''" by (simp add: optOutput_def)
  obtain r' where p': "parse False (''prog'' # [''a.txt''] @ ''-o'' # ([] # []))
      exampleSchema = Inr r'"
    by (simp add: eval_defs schema_defs)
  have "\<exists>v rest. ([] # []) = v # rest \<and> \<not> startsWithDash v
           \<and> (v \<noteq> []
                \<or> ((\<forall>g \<in> set rest. startsWithDash g \<longrightarrow>
                       (\<forall>x \<in> set exampleSchema. g \<in> set (flags x) \<longrightarrow> name x \<noteq> name optOutput))
                    \<and> (\<forall>x \<in> set exampleSchema. flags x = [] \<longrightarrow> name x \<noteq> name optOutput))
                \<longrightarrow> r' (name optOutput) = Some v)"
    by (rule C2_value_is_next_token [OF p', of optOutput])
       (simp_all add: schema_defs startsWithDash_def)
  then have second: "r' ''output'' = Some []" by (simp add: schema_defs)
  from p first p' second show ?thesis by simp
qed

text \<open>
  Claim C2 as stated fails when the token after the flag is the empty string: the
  assertion of \<^verbatim>\<open>setValue\<close> takes the key for unset, and a later occurrence of the flag binds
  it again. In \<open>prog a.txt -o "" -o b\<close> the first \<open>-o\<close> is followed by the empty string, and
  the value returned for \<open>output\<close> is \<open>b\<close>.
\<close>

theorem C2_counterexample:
  "parse False [''prog'', ''a.txt'', ''-o'', [], ''-o'', ''b''] exampleSchema =
     Inr [''-h'' \<mapsto> ''Rename a file'', ''--help'' \<mapsto> ''Rename a file'',
          ''-v'' \<mapsto> ''1.0'', ''--version'' \<mapsto> ''1.0'',
          ''-o'' \<mapsto> ''output.txt'', ''--output'' \<mapsto> ''output.txt'',
          ''--verbose'' \<mapsto> [], ''input'' \<mapsto> ''a.txt'', ''output'' \<mapsto> ''b'']"
  by (simp add: eval_defs schema_defs)

subsection \<open>The empty string as a value\<close>



subsection \<open>The positional option\<close>

text \<open>
  A bare token is reached when the loop has consumed the tokens before it and finds it as
  the token to classify. If the loop reaches no bare token, the positional option is as
  unbound after the loop as it was before.
\<close>

lemma scan_no_bare_open:
  assumes "scan w a0 os af xs st = Inr st'"
    and "\<not> (\<exists>pre b rest s. xs = pre @ b # rest \<and> b \<noteq> [] \<and> \<not> startsWithDash b
             \<and> scan w a0 os af pre st = Inr s)"
  shows "snd st' = snd st"
  using assms
proof (induction rule: scan_Inr_induct)
  case Done
  then show ?case by simp
next
  case (Pure arg rest r p opt r')
  have "\<not> (\<exists>pre b rest' s. rest = pre @ b # rest' \<and> b \<noteq> [] \<and> \<not> startsWithDash b
             \<and> scan w a0 os af pre (r', p) = Inr s)"
  proof
    assume "\<exists>pre b rest' s. rest = pre @ b # rest' \<and> b \<noteq> [] \<and> \<not> startsWithDash b
             \<and> scan w a0 os af pre (r', p) = Inr s"
    then obtain pre b rest' s where h: "rest = pre @ b # rest'" "b \<noteq> []" "\<not> startsWithDash b"
      "scan w a0 os af pre (r', p) = Inr s" by blast
    have "scan w a0 os af (arg # pre) (r, p) = Inr s"
      using scan_pure [where af = af, OF Pure(1-4), of w a0 os pre r p] Pure(5) h(4) by simp
    moreover have "arg # rest = (arg # pre) @ b # rest'" using h(1) by simp
    ultimately show False using Pure.prems h(2,3) by blast
  qed
  with Pure.IH show ?case by simp
next
  case (Value arg v rest r p opt r')
  have "\<not> (\<exists>pre b rest' s. rest = pre @ b # rest' \<and> b \<noteq> [] \<and> \<not> startsWithDash b
             \<and> scan w a0 os af pre (r', p) = Inr s)"
  proof
    assume "\<exists>pre b rest' s. rest = pre @ b # rest' \<and> b \<noteq> [] \<and> \<not> startsWithDash b
             \<and> scan w a0 os af pre (r', p) = Inr s"
    then obtain pre b rest' s where h: "rest = pre @ b # rest'" "b \<noteq> []" "\<not> startsWithDash b"
      "scan w a0 os af pre (r', p) = Inr s" by blast
    have "scan w a0 os af (arg # v # pre) (r, p) = Inr s"
      using scan_value [where af = af, OF Value(1-7), of w a0 os pre r p] Value(8) h(4) by simp
    moreover have "arg # v # rest = (arg # v # pre) @ b # rest'" using h(1) by simp
    ultimately show False using Value.prems h(2,3) by blast
  qed
  with Value.IH show ?case by simp
next
  case (Bare arg rest r p r')
  have "arg # rest = [] @ arg # rest" and "scan w a0 os af [] (r, p) = Inr (r, p)" by simp_all
  with Bare.prems Bare(1,2) show ?case by blast
qed

lemma missing_positional:
  assumes b: "buildTables os initialTables = Inr (af, r0, p0)"
    and pos: "name p0 \<noteq> []"
    and nf: "\<forall>opt \<in> set os. name p0 \<notin> set (flags opt)"
    and nn: "\<forall>opt \<in> set os. flags opt \<noteq> [] \<longrightarrow> name opt \<noteq> name p0"
    and run: "run w a0 os args = Inr st"
    and nb: "\<not> (\<exists>pre b rest s. args = pre @ b # rest \<and> b \<noteq> [] \<and> \<not> startsWithDash b
               \<and> run w a0 os pre = Inr s)"
  shows "parse w (a0 # args) os =
           Inl (Exit 1 (displayHelpMessage w a0 os)
                  (''Error: missing '' @ quote @ name p0 @ quote
                   @ '' value ('' @ description p0 @ '').'' @ nl))"
proof -
  obtain r p where st: "st = (r, p)" by (cases st)
  from run have sc: "scan w a0 os af args (r0, p0) = Inr (r, p)"
    by (simp add: run_tables [OF b] st)
  from nb have "\<not> (\<exists>pre b rest s. args = pre @ b # rest \<and> b \<noteq> [] \<and> \<not> startsWithDash b
               \<and> scan w a0 os af pre (r0, p0) = Inr s)"
    by (simp add: run_tables [OF b])
  from scan_no_bare_open [OF sc this] have p: "p = p0" by simp
  have "\<forall>g x. af g = Some x \<longrightarrow> name x \<noteq> name p0"
    using tables_range [OF b] nn by fastforce
  from scan_other_keys [OF sc this pos] p pos
  have "r (name p0) = r0 (name p0)" by simp
  with tables_unregistered(2) [OF b nf] have "value_at r (name p0) = []"
    by (simp add: value_at_def)
  with pos run show ?thesis
    by (simp add: parse_Cons st p checkPositional_missing)
qed

lemma no_bare_token_3:
  assumes "[x1, x2, x3] = pre @ b # rest"
  shows "(pre = [] \<and> b = x1) \<or> (pre = [x1] \<and> b = x2) \<or> (pre = [x1, x2] \<and> b = x3)"
  using assms by (auto simp: Cons_eq_append_conv)

text \<open>
  Claim C5, amended. The schema has a positional option (the one the tables hold after
  they are built) with no default, whose name is neither a flag nor the name of an option
  that has flags. The loop reaches no bare token (a non-dash token after the flag of a
  value-taking option is its value, not a bare token) and consumes the whole input without
  ending the process. Then \<^verbatim>\<open>parse\<close> writes the error that names the positional option to
  standard error, writes the help message to standard output and exits with code 1.
\<close>

theorem C5_missing_positional:
  assumes "buildTables os initialTables = Inr (af, r0, p0)"
    and "name p0 \<noteq> []" and "defaultValue p0 = []"
    and "\<forall>opt \<in> set os. name p0 \<notin> set (flags opt)"
    and "\<forall>opt \<in> set os. flags opt \<noteq> [] \<longrightarrow> name opt \<noteq> name p0"
    and "run w a0 os args = Inr st"
    and "\<not> (\<exists>pre b rest s. args = pre @ b # rest \<and> b \<noteq> [] \<and> \<not> startsWithDash b
             \<and> run w a0 os pre = Inr s)"
  shows "parse w (a0 # args) os =
           Inl (Exit 1 (displayHelpMessage w a0 os)
                  (''Error: missing '' @ quote @ name p0 @ quote
                   @ '' value ('' @ description p0 @ '').'' @ nl))"
  using assms(1,2,4-7) by (rule missing_positional)

theorem C5_missing_positional_witness:
  "parse False [''prog'', ''-o'', ''b.txt'', ''--verbose''] exampleSchema =
     Inl (Exit 1 (displayHelpMessage False ''prog'' exampleSchema)
            (''Error: missing '' @ quote @ ''input'' @ quote
             @ '' value (Input file to rename).'' @ nl))"
proof -
  obtain af r0 where b: "buildTables exampleSchema initialTables = Inr (af, r0, optInput)"
    by (simp add: eval_defs schema_defs)
  obtain st where run: "run False ''prog'' exampleSchema [''-o'', ''b.txt'', ''--verbose''] = Inr st"
    by (simp add: eval_defs schema_defs)
  have cut: "run False ''prog'' exampleSchema [''-o''] \<noteq> Inr s" for s
    by (simp add: eval_defs schema_defs)
  have nb: "\<not> (\<exists>pre b rest s. [''-o'', ''b.txt'', ''--verbose''] = pre @ b # rest \<and> b \<noteq> []
      \<and> \<not> startsWithDash b \<and> run False ''prog'' exampleSchema pre = Inr s)"
    using cut by (auto dest!: no_bare_token_3 simp: startsWithDash_def)
  have "parse False (''prog'' # [''-o'', ''b.txt'', ''--verbose'']) exampleSchema =
     Inl (Exit 1 (displayHelpMessage False ''prog'' exampleSchema)
            (''Error: missing '' @ quote @ name optInput @ quote
             @ '' value ('' @ description optInput @ '').'' @ nl))"
    by (rule C5_missing_positional [OF b _ _ _ _ run nb]) (simp_all add: schema_defs)
  then show ?thesis by (simp add: optInput_def)
qed

text \<open>
  Claim C5 as stated, for every argument vector without a bare token, fails: \<open>prog --version\<close>
  has no bare token, the schema has a positional option without default, and the process
  exits with code 0 after writing the version. When an option with a flag has the name of
  the positional option, \<open>prog -o b.txt\<close> binds that name and the assertion before the error
  message fails.
\<close>

theorem C5_counterexample:
  "parse False [''prog'', ''--version''] exampleSchema = Inl (Exit 0 (''1.0'' @ nl) [])
   \<and> parse False [''prog'', ''-o'', ''b.txt''] sharedNameSchema = Inl AssertionFailed"
  by (simp add: eval_defs schema_defs sharedNameSchema_def optOutputAsInput_def)

text \<open>
  Claim C8, amended. The schema has a positional option with a non-empty default, whose
  name is neither a flag nor the name of an option that has flags. If the loop reaches no
  bare token and consumes the whole input without ending the process, \<^verbatim>\<open>parse\<close> still
  writes the missing value error for the positional option, writes the help message and
  exits with code 1. The defaults are seeded for the flag keys only: the keys of the seeded
  map are the flags of the schema, and the positional name is not among them.
\<close>

theorem C8_default_does_not_make_positional_optional:
  assumes "buildTables os initialTables = Inr (af, r0, p0)"
    and "name p0 \<noteq> []" and "defaultValue p0 \<noteq> []"
    and "\<forall>opt \<in> set os. name p0 \<notin> set (flags opt)"
    and "\<forall>opt \<in> set os. flags opt \<noteq> [] \<longrightarrow> name opt \<noteq> name p0"
    and "run w a0 os args = Inr st"
    and "\<not> (\<exists>pre b rest s. args = pre @ b # rest \<and> b \<noteq> [] \<and> \<not> startsWithDash b
             \<and> run w a0 os pre = Inr s)"
  shows "parse w (a0 # args) os =
           Inl (Exit 1 (displayHelpMessage w a0 os)
                  (''Error: missing '' @ quote @ name p0 @ quote
                   @ '' value ('' @ description p0 @ '').'' @ nl))
       \<and> dom r0 = (\<Union>opt \<in> set os. set (flags opt))
       \<and> r0 (name p0) = None"
proof (intro conjI)
  show "parse w (a0 # args) os =
           Inl (Exit 1 (displayHelpMessage w a0 os)
                  (''Error: missing '' @ quote @ name p0 @ quote
                   @ '' value ('' @ description p0 @ '').'' @ nl))"
    using assms(1,2,4-7) by (rule missing_positional)
  show "r0 (name p0) = None"
    by (rule tables_unregistered(2) [OF assms(1,4)])
  have "dom r0 = dom af"
    using tables_seed [OF assms(1)] by (auto simp: dom_def)
  then show "dom r0 = (\<Union>opt \<in> set os. set (flags opt))"
    by (simp add: tables_dom [OF assms(1)])
qed

theorem C8_default_does_not_make_positional_optional_witness:
  "defaultValue optInputDefault = ''in.txt''
   \<and> parse False [''prog'', ''--output'', ''b.txt'', ''--verbose''] exampleSchemaDefault =
     Inl (Exit 1 (displayHelpMessage False ''prog'' exampleSchemaDefault)
            (''Error: missing '' @ quote @ ''input'' @ quote
             @ '' value (Input file to rename).'' @ nl))"
proof -
  obtain af r0 where b: "buildTables exampleSchemaDefault initialTables = Inr (af, r0, optInputDefault)"
    by (simp add: eval_defs schema_defs exampleSchemaDefault_def)
  obtain st where run: "run False ''prog'' exampleSchemaDefault [''--output'', ''b.txt'', ''--verbose''] = Inr st"
    by (simp add: eval_defs schema_defs exampleSchemaDefault_def)
  have cut: "run False ''prog'' exampleSchemaDefault [''--output''] \<noteq> Inr s" for s
    by (simp add: eval_defs schema_defs exampleSchemaDefault_def)
  have nb: "\<not> (\<exists>pre b rest s. [''--output'', ''b.txt'', ''--verbose''] = pre @ b # rest \<and> b \<noteq> []
      \<and> \<not> startsWithDash b \<and> run False ''prog'' exampleSchemaDefault pre = Inr s)"
    using cut by (auto dest!: no_bare_token_3 simp: startsWithDash_def)
  have "parse False (''prog'' # [''--output'', ''b.txt'', ''--verbose'']) exampleSchemaDefault =
           Inl (Exit 1 (displayHelpMessage False ''prog'' exampleSchemaDefault)
                  (''Error: missing '' @ quote @ name optInputDefault @ quote
                   @ '' value ('' @ description optInputDefault @ '').'' @ nl))
       \<and> dom r0 = (\<Union>opt \<in> set exampleSchemaDefault. set (flags opt))
       \<and> r0 (name optInputDefault) = None"
    by (rule C8_default_does_not_make_positional_optional [OF b _ _ _ _ run nb])
       (simp_all add: schema_defs exampleSchemaDefault_def)
  then show ?thesis by (simp add: optInputDefault_def)
qed

text \<open>
  Claim C8 as stated, for every input that omits the positional token, fails: with a
  positional option that has a default, \<open>prog --help\<close> exits with code 0 after writing the
  help message, and when an option with a flag has the name of the positional option,
  \<open>prog -o b.txt\<close> ends in the failed assertion before the error message.
\<close>

theorem C8_counterexample:
  "defaultValue optInputDefault \<noteq> []
   \<and> parse False [''prog'', ''--help''] exampleSchemaDefault
       = Inl (Exit 0 (displayHelpMessage False ''prog'' exampleSchemaDefault) [])
   \<and> parse False [''prog'', ''-o'', ''b.txt''] sharedNameSchemaDefault = Inl AssertionFailed"
  by (simp add: eval_defs schema_defs exampleSchemaDefault_def sharedNameSchemaDefault_def
        optOutputAsInput_def)

lemma run_bare_accepted:
  assumes "run w a0 os (pre1 @ b1 # mid) = Inr (r, p)"
    and "run w a0 os pre1 = Inr (r1, p1)"
    and "b1 \<noteq> []" and "\<not> startsWithDash b1"
  shows "name p1 \<noteq> [] \<and> r (name p1) = Some b1 \<and> name p = []"
proof -
  from assms(2) obtain af r0 p0 where b: "buildTables os initialTables = Inr (af, r0, p0)"
    by (rule run_Inr)
  from run_append [OF assms(2) b, of "b1 # mid"] assms(1)
  have "scan w a0 os af (b1 # mid) (r1, p1) = Inr (r, p)" by simp
  then show ?thesis
  proof (cases rule: scan_Cons_Inr)
    case (Pure opt r')
    with assms(4) show ?thesis by simp
  next
    case (Value opt v vs r')
    with assms(4) show ?thesis by simp
  next
    case (Bare r')
    from Bare(4) have "r' (name p1) = Some b1" by (simp add: setValue_Inr)
    from scan_keeps_value [OF Bare(5), of "name p1" b1] this assms(3)
    have "r (name p1) = Some b1" by simp
    moreover from scan_positional_closed [OF Bare(5)] have "name p = []"
      by (simp add: emptyOption_def)
    ultimately show ?thesis using Bare(3) by simp
  qed
qed

lemma run_no_positional:
  assumes "run w a0 os pre = Inr (r, p)"
    and "\<forall>opt \<in> set os. name opt = [] \<or> flags opt \<noteq> [] \<or> name opt = ''help'' \<or> name opt = ''version''"
  shows "name p = []"
proof -
  from assms(1) obtain af r0 p0 where b: "buildTables os initialTables = Inr (af, r0, p0)"
    and sc: "scan w a0 os af pre (r0, p0) = Inr (r, p)"
    by (rule run_Inr)
  from buildTables_no_positional [OF b [unfolded initialTables_def] assms(2)]
  have "name p0 = []" by (simp add: emptyOption_def)
  with scan_positional_closed [OF sc] show ?thesis by simp
qed

text \<open>
  Claim C7. The loop has consumed the tokens \<open>pre\<close> and the next token \<open>b\<close> is a bare token
  (not empty, no leading dash). If the schema has no positional option, or a bare token of
  \<open>pre\<close> was reached by the loop before, then \<^verbatim>\<open>parse\<close> writes the unexpected value error
  naming \<open>b\<close>, writes the help message and exits with code 1. Moreover every bare token of
  \<open>pre\<close> that the loop reached was bound to the positional option that was unbound at that
  point, and the map still holds it: only one bare token is ever accepted.
\<close>

theorem C7_single_positional:
  assumes "run w a0 os pre = Inr (r, p)"
    and "b \<noteq> []" and "\<not> startsWithDash b"
    and "(\<forall>opt \<in> set os. name opt = [] \<or> flags opt \<noteq> [] \<or> name opt = ''help'' \<or> name opt = ''version'')
       \<or> (\<exists>pre1 b1 mid st1. pre = pre1 @ b1 # mid \<and> b1 \<noteq> [] \<and> \<not> startsWithDash b1
             \<and> run w a0 os pre1 = Inr st1)"
  shows "parse w (a0 # pre @ b # rest) os =
           Inl (Exit 1 (displayHelpMessage w a0 os)
                  (''Error: unexpected value '' @ quote @ b @ quote @ ''.'' @ nl))
       \<and> (\<forall>pre1 b1 mid r1 p1.
             pre = pre1 @ b1 # mid \<and> b1 \<noteq> [] \<and> \<not> startsWithDash b1
             \<and> run w a0 os pre1 = Inr (r1, p1)
             \<longrightarrow> name p1 \<noteq> [] \<and> r (name p1) = Some b1)"
proof (intro conjI allI impI)
  have closed: "name p = []"
    using assms(4)
  proof
    assume "\<forall>opt \<in> set os. name opt = [] \<or> flags opt \<noteq> [] \<or> name opt = ''help'' \<or> name opt = ''version''"
    with assms(1) show ?thesis by (rule run_no_positional)
  next
    assume "\<exists>pre1 b1 mid st1. pre = pre1 @ b1 # mid \<and> b1 \<noteq> [] \<and> \<not> startsWithDash b1
             \<and> run w a0 os pre1 = Inr st1"
    then obtain pre1 b1 mid r1 p1 where "pre = pre1 @ b1 # mid" "b1 \<noteq> []" "\<not> startsWithDash b1"
      "run w a0 os pre1 = Inr (r1, p1)" by (metis surj_pair)
    with assms(1) run_bare_accepted [of w a0 os pre1 b1 mid r p r1 p1] show ?thesis by simp
  qed
  from assms(1) obtain af r0 p0 where b: "buildTables os initialTables = Inr (af, r0, p0)"
    by (rule run_Inr)
  from run_append [OF assms(1) b, of "b # rest"] scan_unexpected [OF assms(2,3) closed]
  have "run w a0 os (pre @ b # rest) =
      Inl (Exit 1 (displayHelpMessage w a0 os)
             (''Error: unexpected value '' @ quote @ b @ quote @ ''.'' @ nl))"
    by simp
  then show "parse w (a0 # pre @ b # rest) os =
           Inl (Exit 1 (displayHelpMessage w a0 os)
                  (''Error: unexpected value '' @ quote @ b @ quote @ ''.'' @ nl))"
    by (rule parse_ends_in_loop)
next
  fix pre1 b1 mid r1 p1
  assume h: "pre = pre1 @ b1 # mid \<and> b1 \<noteq> [] \<and> \<not> startsWithDash b1
             \<and> run w a0 os pre1 = Inr (r1, p1)"
  with assms(1) run_bare_accepted [of w a0 os pre1 b1 mid r p r1 p1]
  show "name p1 \<noteq> []" and "r (name p1) = Some b1" by simp_all
qed

theorem C7_single_positional_witness:
  "parse False [''prog'', ''a.txt'', ''-o'', ''b.txt'', ''extra.txt'', ''--bogus''] exampleSchema =
     Inl (Exit 1 (displayHelpMessage False ''prog'' exampleSchema)
            (''Error: unexpected value '' @ quote @ ''extra.txt'' @ quote @ ''.'' @ nl))
   \<and> parse False [''prog'', ''--verbose'', ''a.txt''] flagsOnlySchema =
     Inl (Exit 1 (displayHelpMessage False ''prog'' flagsOnlySchema)
            (''Error: unexpected value '' @ quote @ ''a.txt'' @ quote @ ''.'' @ nl))"
proof -
  obtain r p where run: "run False ''prog'' exampleSchema ([] @ ''a.txt'' # [''-o'', ''b.txt'']) = Inr (r, p)"
    by (simp add: eval_defs schema_defs)
  obtain st1 where run1: "run False ''prog'' exampleSchema [] = Inr st1"
    by (simp add: eval_defs schema_defs)
  have second: "\<exists>pre1 b1 mid st1. [] @ ''a.txt'' # [''-o'', ''b.txt''] = pre1 @ b1 # mid \<and> b1 \<noteq> []
      \<and> \<not> startsWithDash b1 \<and> run False ''prog'' exampleSchema pre1 = Inr st1"
    using run1 by (intro exI [of _ "[]"] exI [of _ "''a.txt''"] exI [of _ "[''-o'', ''b.txt'']"] exI [of _ st1])
      (simp add: startsWithDash_def)
  obtain r' p' where run': "run False ''prog'' flagsOnlySchema [''--verbose''] = Inr (r', p')"
    by (simp add: eval_defs schema_defs flagsOnlySchema_def)
  have none: "\<forall>opt \<in> set flagsOnlySchema. name opt = [] \<or> flags opt \<noteq> [] \<or> name opt = ''help'' \<or> name opt = ''version''"
    by (simp add: schema_defs flagsOnlySchema_def)
  from C7_single_positional [OF run _ _ disjI2 [OF second], of "''extra.txt''" "[''--bogus'']"]
    C7_single_positional [OF run' _ _ disjI1 [OF none], of "''a.txt''" "[]"]
  show ?thesis by (simp add: startsWithDash_def)
qed

subsection \<open>Empty tokens\<close>

lemma setValue_Inl: "setValue r opt v = Inl e \<Longrightarrow> e = AssertionFailed"
  by (auto simp: setValue_def split: if_splits)

lemma scan_defined:
  "\<forall>t \<in> set xs. t \<noteq> [] \<Longrightarrow> scan w a0 os af xs st \<noteq> Inl UndefinedBehaviour"
proof (induction xs arbitrary: st rule: length_induct)
  case (1 xs)
  show ?case
  proof (cases xs)
    case Nil
    then show ?thesis by simp
  next
    case (Cons arg rest)
    obtain r p where st: "st = (r, p)" by (cases st)
    from "1.prems" Cons have ne: "arg \<noteq> []" and rest_ne: "\<forall>t \<in> set rest. t \<noteq> []" by simp_all
    have IH: "\<And>ys s. length ys \<le> length rest \<Longrightarrow> \<forall>t \<in> set ys. t \<noteq> [] \<Longrightarrow>
        scan w a0 os af ys s \<noteq> Inl UndefinedBehaviour"
    proof -
      fix ys :: "string list" and s :: "result_map \<times> ProgramOption"
      assume "length ys \<le> length rest" and "\<forall>t \<in> set ys. t \<noteq> []"
      moreover from this(1) Cons have "length ys < length xs" by simp
      ultimately show "scan w a0 os af ys s \<noteq> Inl UndefinedBehaviour"
        using "1.IH" [rule_format, of ys s] by simp
    qed
    show ?thesis
    proof (cases "startsWithDash arg")
      case dash: True
      show ?thesis
      proof (cases "af arg")
        case None
        then show ?thesis unfolding Cons using scan_unknown [where af = af, OF ne dash] by simp
      next
        case (Some opt)
        consider (reserved_help) "name opt = ''help''" | (reserved_version) "name opt = ''version''"
          | (pure_flag) "name opt = []"
          | (no_value) "name opt \<noteq> []" "name opt \<noteq> ''help''" "name opt \<noteq> ''version''"
              "rest = [] \<or> startsWithDash (hd rest)"
          | (with_value) v vs where "name opt \<noteq> []" "name opt \<noteq> ''help''" "name opt \<noteq> ''version''"
              "rest = v # vs" "\<not> startsWithDash v"
          by (cases rest) auto
        then show ?thesis
        proof cases
          case reserved_help
          then show ?thesis unfolding Cons
            using scan_help [where af = af, OF ne dash Some] by simp
        next
          case reserved_version
          then show ?thesis unfolding Cons
            using scan_version [where af = af, OF ne dash Some] by simp
        next
          case pure_flag
          show ?thesis unfolding Cons st
            using scan_pure [where af = af, OF ne dash Some pure_flag, of w a0 os rest r p]
              IH [of rest] rest_ne
            by (auto split: sum.splits dest: setValue_Inl)
        next
          case no_value
          then show ?thesis unfolding Cons
            using scan_missing_value [where af = af, OF ne dash Some] by simp
        next
          case with_value
          show ?thesis unfolding Cons st with_value(4)
            using scan_value [where af = af, OF ne dash Some with_value(1-3) with_value(5), of w a0 os vs r p]
              IH [of vs] rest_ne with_value(4)
            by (auto split: sum.splits dest: setValue_Inl)
        qed
      qed
    next
      case bare: False
      show ?thesis
      proof (cases "name p = []")
        case True
        then show ?thesis unfolding Cons st
          using scan_unexpected [OF ne bare True] by simp
      next
        case False
        show ?thesis unfolding Cons st
          using scan_bare [OF ne bare False, of w a0 os af rest r] IH [of rest] rest_ne
          by (auto split: sum.splits dest: setValue_Inl)
      qed
    qed
  qed
qed

lemma registerFlags_Inl:
  "registerFlags opt ns tabs = Inl e \<Longrightarrow> e = AssertionFailed"
proof (induction ns arbitrary: tabs)
  case Nil
  then show ?case by simp
next
  case (Cons n ns)
  obtain af res where "tabs = (af, res)" by (cases tabs)
  with Cons show ?case by (auto split: if_splits)
qed

lemma buildTables_Inl:
  "buildTables opts tabs = Inl e \<Longrightarrow> e = AssertionFailed"
proof (induction opts arbitrary: tabs)
  case Nil
  then show ?case by simp
next
  case (Cons x xs)
  obtain af res p where "tabs = (af, res, p)" by (cases tabs)
  with Cons show ?case
    by (auto split: sum.splits if_splits dest: registerFlags_Inl)
qed

text \<open>
  Claim C10, amended. \<^verbatim>\<open>parse\<close> calls \<^verbatim>\<open>front()\<close> on the tokens that the loop classifies as
  flag or bare token. If no token of \<open>argv[1..]\<close> is empty, \<^verbatim>\<open>parse\<close> never makes the
  undefined access. If the loop has consumed \<open>pre\<close> and the next token to classify is
  empty, the access is undefined.
\<close>

theorem C10_front_of_empty_token:
  "((\<forall>t \<in> set args. t \<noteq> []) \<longrightarrow> parse w (a0 # args) os \<noteq> Inl UndefinedBehaviour)
   \<and> (run w a0 os pre = Inr st \<longrightarrow> parse w (a0 # pre @ [] # rest) os = Inl UndefinedBehaviour)"
proof (intro conjI impI)
  assume ne: "\<forall>t \<in> set args. t \<noteq> []"
  show "parse w (a0 # args) os \<noteq> Inl UndefinedBehaviour"
  proof (cases "buildTables os initialTables")
    case (Inl e)
    then show ?thesis
      using buildTables_Inl [OF Inl] by (simp add: parse_Cons run_def)
  next
    case (Inr tabs)
    obtain af r0 p0 where tabs: "tabs = (af, r0, p0)" by (cases tabs)
    show ?thesis
      using scan_defined [OF ne, of w a0 os af "(r0, p0)"] Inr tabs
      by (auto simp: parse_Cons run_def checkPositional_def split: sum.splits)
  qed
next
  assume run: "run w a0 os pre = Inr st"
  then obtain af r0 p0 where b: "buildTables os initialTables = Inr (af, r0, p0)"
    by (rule run_Inr)
  from run_append [OF run b, of "[] # rest"]
  have "run w a0 os (pre @ [] # rest) = Inl UndefinedBehaviour"
    by (simp add: scan_empty_token)
  then show "parse w (a0 # pre @ [] # rest) os = Inl UndefinedBehaviour"
    by (rule parse_ends_in_loop)
qed

theorem C10_front_of_empty_token_witness:
  "parse False [''prog'', ''a.txt'', ''-o'', ''b.txt''] exampleSchema \<noteq> Inl UndefinedBehaviour
   \<and> parse False [''prog'', ''a.txt'', [], ''-o''] exampleSchema = Inl UndefinedBehaviour"
proof -
  obtain st where run: "run False ''prog'' exampleSchema [''a.txt''] = Inr st"
    by (simp add: eval_defs schema_defs)
  have ne: "\<forall>t \<in> set [''a.txt'', ''-o'', ''b.txt'']. t \<noteq> []" by simp
  from C10_front_of_empty_token [of "[''a.txt'', ''-o'', ''b.txt'']" False "''prog''" exampleSchema
      "[''a.txt'']" st "[''-o'']"] run ne
  show ?thesis by simp
qed

text \<open>
  Claim C10 as stated, for every token and every input with an empty token, fails: the
  token after the flag of a value-taking option is read with \<^verbatim>\<open>argv[i][0]\<close>, not with
  \<^verbatim>\<open>front()\<close>. In \<open>prog a.txt -o ""\<close> the empty token is the value of \<open>-o\<close> and \<^verbatim>\<open>parse\<close>
  returns normally.
\<close>

theorem C10_counterexample:
  "parse False [''prog'', ''a.txt'', ''-o'', []] exampleSchema =
     Inr [''-h'' \<mapsto> ''Rename a file'', ''--help'' \<mapsto> ''Rename a file'',
          ''-v'' \<mapsto> ''1.0'', ''--version'' \<mapsto> ''1.0'',
          ''-o'' \<mapsto> ''output.txt'', ''--output'' \<mapsto> ''output.txt'',
          ''--verbose'' \<mapsto> [], ''input'' \<mapsto> ''a.txt'', ''output'' \<mapsto> []]"
  by (simp add: eval_defs schema_defs)

end
